theory Spec2Isabelle
  imports
    Main
    "HOL-Library.Word"
    "HOL-Library.Signed_Division"
    "HOL-Library.Log_Nat"
begin

unbundle bit_operations_syntax

chapter \<open>A stopwatch on a multiplexed 7-segment display (main.cpp)\<close>

text \<open>
  The firmware keeps a pair of counters (seconds, minutes) that a ticker callback
  increments once per second, and a polling loop that shows either the counters or a
  scaled analog reading on a 4-digit common-anode display behind a serial shift register.
  The functions \<open>updateTime\<close>, \<open>shiftOut\<close>, \<open>writeToShiftRegister\<close> and \<open>displayNumber\<close> of
  \<^verbatim>\<open>src/main.cpp\<close> and the body of the loop of \<open>main\<close> are embedded below under their
  own names.
\<close>

section \<open>Machine values and faults\<close>

text \<open>
  The target's \<^verbatim>\<open>int\<close> is a 32-bit two's complement integer. Signed overflow, an
  array read outside its bounds and a float-to-int conversion outside the range of
  \<^verbatim>\<open>int\<close> have no defined behaviour in C++; the model returns them as faults, so
  that each of them is a branch of the function that can commit it.
\<close>

datatype fault = SignedOverflow | OutOfBounds | FloatToIntRange

type_synonym u8 = "8 word"
type_synonym u16 = "16 word"

definition INT_MAX :: int where
  "INT_MAX = 2147483647"

definition INT_MIN :: int where
  "INT_MIN = - 2147483648"

definition checked :: "int \<Rightarrow> fault + int" where
  "checked x = (if INT_MIN \<le> x \<and> x \<le> INT_MAX then Inr x else Inl SignedOverflow)"

text \<open>Reading \<^verbatim>\<open>xs[i]\<close> from a fixed-size array with a signed index.\<close>

definition array_read :: "'a list \<Rightarrow> int \<Rightarrow> fault + 'a" where
  "array_read xs i =
     (if 0 \<le> i \<and> i < int (length xs) then Inr (xs ! nat i) else Inl OutOfBounds)"

section \<open>Timekeeping\<close>

text \<open>
  \<^verbatim>\<open>volatile int seconds = 0, minutes = 0;\<close>
\<close>

record clock =
  seconds :: int
  minutes :: int

definition initial :: clock where
  "initial = \<lparr>seconds = 0, minutes = 0\<rparr>"

text \<open>
  \<^verbatim>\<open>
  void updateTime() {
      if (++seconds >= 60) {
          seconds = 0;
          if (++minutes >= 100) minutes = 0;
      }
  }
  \<close>
\<close>

definition updateTime :: "clock \<Rightarrow> fault + clock" where
  "updateTime c =
     (case checked (seconds c + 1) of
        Inl e \<Rightarrow> Inl e
      | Inr s \<Rightarrow>
          if s \<ge> 60 then
            (case checked (minutes c + 1) of
               Inl e \<Rightarrow> Inl e
             | Inr m \<Rightarrow> Inr \<lparr>seconds = 0, minutes = (if m \<ge> 100 then 0 else m)\<rparr>)
          else Inr (c\<lparr>seconds := s\<rparr>))"

text \<open>\<open>n\<close> consecutive calls of the callback; a fault ends the run.\<close>

fun ticks :: "nat \<Rightarrow> clock \<Rightarrow> fault + clock" where
  "ticks 0 c = Inr c"
| "ticks (Suc n) c = (case updateTime c of Inl e \<Rightarrow> Inl e | Inr c' \<Rightarrow> ticks n c')"

text \<open>
  The reset of the main loop, \<^verbatim>\<open>seconds = minutes = 0;\<close>, taken as one step: minutes
  is written first, and seconds receives the value of the assignment to minutes.
\<close>

definition reset :: "clock \<Rightarrow> clock" where
  "reset c = (let c' = c\<lparr>minutes := 0\<rparr> in c'\<lparr>seconds := minutes c'\<rparr>)"

text \<open>
  The two operations that write the counters, and the effect of a sequence of them.
\<close>

datatype op = Tick | Reset

fun run :: "op list \<Rightarrow> clock \<Rightarrow> fault + clock" where
  "run [] c = Inr c"
| "run (Tick # ops) c = (case updateTime c of Inl e \<Rightarrow> Inl e | Inr c' \<Rightarrow> run ops c')"
| "run (Reset # ops) c = run ops (reset c)"

text \<open>The ranges the specification gives for the two counters.\<close>

definition in_range :: "clock \<Rightarrow> bool" where
  "in_range c \<longleftrightarrow>
     0 \<le> seconds c \<and> seconds c \<le> 59 \<and> 0 \<le> minutes c \<and> minutes c \<le> 99"

section \<open>The output pins and the shift register driver\<close>

text \<open>
  \<^verbatim>\<open>DigitalOut latchPin(D4); DigitalOut clockPin(D7); DigitalOut dataPin(D8);\<close>

  The board is the level of the three output pins together with the sequence of
  everything the program did to the outside so far: each write to a pin, in program
  order, and each delay. An assignment \<^verbatim>\<open>pin = v\<close> drives the pin high when
  \<open>v\<close> is not zero.
\<close>

datatype line = Latch | Clock | Data

datatype event = Write line bool | Sleep nat

record board =
  latchPin :: bool
  clockPin :: bool
  dataPin :: bool
  trace :: "event list"

definition write_latchPin :: "int \<Rightarrow> board \<Rightarrow> board" where
  "write_latchPin v b =
     b\<lparr>latchPin := (v \<noteq> 0), trace := trace b @ [Write Latch (v \<noteq> 0)]\<rparr>"

definition write_clockPin :: "int \<Rightarrow> board \<Rightarrow> board" where
  "write_clockPin v b =
     b\<lparr>clockPin := (v \<noteq> 0), trace := trace b @ [Write Clock (v \<noteq> 0)]\<rparr>"

definition write_dataPin :: "int \<Rightarrow> board \<Rightarrow> board" where
  "write_dataPin v b =
     b\<lparr>dataPin := (v \<noteq> 0), trace := trace b @ [Write Data (v \<noteq> 0)]\<rparr>"

text \<open>\<^verbatim>\<open>ThisThread::sleep_for(n ms)\<close>\<close>

definition sleep_for :: "nat \<Rightarrow> board \<Rightarrow> board" where
  "sleep_for ms b = b\<lparr>trace := trace b @ [Sleep ms]\<rparr>"

text \<open>The board before the program has written anything.\<close>

definition power_on :: board where
  "power_on = \<lparr>latchPin = False, clockPin = False, dataPin = False, trace = []\<rparr>"

text \<open>
  \<^verbatim>\<open>
  void shiftOut(uint8_t value) {
      for (int i = 7; i >= 0; --i) {
          dataPin = (value >> i) & 0x01;
          clockPin = 1;
          clockPin = 0;
      }
  }
  \<close>
  \<open>shiftOut_from i\<close> is the loop entered with the counter at \<open>i\<close>. The byte is promoted
  to \<^verbatim>\<open>int\<close> before it is shifted and masked.
\<close>

function shiftOut_from :: "int \<Rightarrow> u8 \<Rightarrow> board \<Rightarrow> board" where
  "shiftOut_from i v b =
     (if i \<ge> 0 then
        shiftOut_from (i - 1) v
          (write_clockPin 0 (write_clockPin 1
             (write_dataPin (drop_bit (nat i) (uint v) AND 1) b)))
      else b)"
  by pat_completeness auto
termination
  by (relation "measure (\<lambda>(i, v, b). nat (i + 1))") auto

declare shiftOut_from.simps [simp del]

definition shiftOut :: "u8 \<Rightarrow> board \<Rightarrow> board" where
  "shiftOut v b = shiftOut_from 7 v b"

text \<open>
  \<^verbatim>\<open>
  void writeToShiftRegister(uint8_t segments, uint8_t digit) {
      latchPin = 0;
      shiftOut(segments);
      shiftOut(digit);
      latchPin = 1;
  }
  \<close>
\<close>

definition writeToShiftRegister :: "u8 \<Rightarrow> u8 \<Rightarrow> board \<Rightarrow> board" where
  "writeToShiftRegister segments digit b =
     write_latchPin 1 (shiftOut digit (shiftOut segments (write_latchPin 0 b)))"

text \<open>
  The contract of section 4.2 of the specification, in its own words, for comparison with
  \<open>shiftOut\<close>: for each bit position from 7 down to 0, set the data line to the bit
  value, then pulse the clock line high then low.
\<close>

definition msb_first :: "u8 \<Rightarrow> event list" where
  "msb_first v =
     concat (map (\<lambda>i. [Write Data (bit v i), Write Clock True, Write Clock False])
               [7, 6, 5, 4, 3, 2, 1, 0])"

text \<open>The events of a trace that are writes to a given pin.\<close>

fun on_line :: "line \<Rightarrow> event \<Rightarrow> bool" where
  "on_line l (Write l' v) = (l = l')"
| "on_line l (Sleep ms) = False"

section \<open>The display\<close>

text \<open>
  \<^verbatim>\<open>
  const uint8_t digitPattern[10] = {
      static_cast<uint8_t>(~0x3F), static_cast<uint8_t>(~0x06), static_cast<uint8_t>(~0x5B),
      static_cast<uint8_t>(~0x4F), static_cast<uint8_t>(~0x66), static_cast<uint8_t>(~0x6D),
      static_cast<uint8_t>(~0x7D), static_cast<uint8_t>(~0x07), static_cast<uint8_t>(~0x7F),
      static_cast<uint8_t>(~0x6F) };
  const uint8_t digitPos[4] = { 0x01, 0x02, 0x04, 0x08 };
  \<close>
  The complement is taken on \<^verbatim>\<open>int\<close> and the cast keeps the low 8 bits.
\<close>

definition digitPattern :: "u8 list" where
  "digitPattern =
     [word_of_int (NOT 0x3F), word_of_int (NOT 0x06), word_of_int (NOT 0x5B),
      word_of_int (NOT 0x4F), word_of_int (NOT 0x66), word_of_int (NOT 0x6D),
      word_of_int (NOT 0x7D), word_of_int (NOT 0x07), word_of_int (NOT 0x7F),
      word_of_int (NOT 0x6F)]"

definition digitPos :: "u8 list" where
  "digitPos = [0x01, 0x02, 0x04, 0x08]"

text \<open>
  The local array of \<open>displayNumber\<close>. The operators \<^verbatim>\<open>/\<close> and \<^verbatim>\<open>%\<close> of C++
  truncate towards zero: they are \<open>sdiv\<close> and \<open>smod\<close>, not \<open>div\<close> and \<open>mod\<close>.
  \<^verbatim>\<open>
  int digits[4] = { (number / 1000) % 10, (number / 100) % 10, (number / 10) % 10,
                    number % 10 };
  \<close>
\<close>

definition digits :: "int \<Rightarrow> int list" where
  "digits number =
     [(number sdiv 1000) smod 10, (number sdiv 100) smod 10, (number sdiv 10) smod 10,
      number smod 10]"

text \<open>
  The segment byte of slot \<open>i\<close>, as the loop body computes it:
  \<^verbatim>\<open>
  uint8_t segments = digitPattern[digits[i]];
  if (showDecimal && i == decimalPos)
      segments &= ~0x80;
  \<close>
\<close>

definition segments_at :: "int list \<Rightarrow> bool \<Rightarrow> int \<Rightarrow> int \<Rightarrow> fault + u8" where
  "segments_at ds showDecimal decimalPos i =
     (case array_read ds i of
        Inl e \<Rightarrow> Inl e
      | Inr d \<Rightarrow>
          (case array_read digitPattern d of
             Inl e \<Rightarrow> Inl e
           | Inr segments \<Rightarrow>
               Inr (if showDecimal \<and> i = decimalPos
                    then word_of_int (uint segments AND NOT 0x80)
                    else segments)))"

text \<open>
  \<^verbatim>\<open>
  for (int i = 0; i < 4; ++i) {
      ... segments ...
      writeToShiftRegister(segments, digitPos[i]);
      ThisThread::sleep_for(2ms);
  }
  \<close>
\<close>

function displayNumber_from :: "int \<Rightarrow> int list \<Rightarrow> bool \<Rightarrow> int \<Rightarrow> board \<Rightarrow> fault + board" where
  "displayNumber_from i ds showDecimal decimalPos b =
     (if i < 4 then
        (case segments_at ds showDecimal decimalPos i of
           Inl e \<Rightarrow> Inl e
         | Inr segments \<Rightarrow>
             (case array_read digitPos i of
                Inl e \<Rightarrow> Inl e
              | Inr pos \<Rightarrow>
                  displayNumber_from (i + 1) ds showDecimal decimalPos
                    (sleep_for 2 (writeToShiftRegister segments pos b))))
      else Inr b)"
  by pat_completeness auto
termination
  by (relation "measure (\<lambda>(i, ds, sd, dp, b). nat (4 - i))") auto

declare displayNumber_from.simps [simp del]

text \<open>
  \<^verbatim>\<open>void displayNumber(int number, bool showDecimal = false, int decimalPos = 1)\<close>;
  a call with one argument is \<open>displayNumber number False 1\<close>.
\<close>

definition displayNumber :: "int \<Rightarrow> bool \<Rightarrow> int \<Rightarrow> board \<Rightarrow> fault + board" where
  "displayNumber number showDecimal decimalPos b =
     displayNumber_from 0 (digits number) showDecimal decimalPos b"

text \<open>
  Section 4.3 of the specification, in its own words, for comparison with
  \<open>displayNumber\<close>: drive each of the digit slots in turn through the shift register,
  holding each for 2 ms. A frame is a list of (segment byte, digit-select byte) pairs.
\<close>

definition show_frame :: "(u8 \<times> u8) list \<Rightarrow> board \<Rightarrow> board" where
  "show_frame slots b =
     foldl (\<lambda>b' (segments, pos). sleep_for 2 (writeToShiftRegister segments pos b')) b slots"

text \<open>
  What a person reads from a segment byte of this display (section 3 of the
  specification: a segment is lit when its bit is 0, and bit 7 is the decimal point): the
  digit whose pattern the low seven bits are, followed by a point when bit 7 is clear.
\<close>

definition reading :: "u8 \<Rightarrow> string" where
  "reading segments =
     (case find (\<lambda>d. digitPattern ! d = segments OR 0x80) [0..<10] of
        Some d \<Rightarrow> [char_of (48 + d)]
      | None \<Rightarrow> ''?'')
     @ (if bit segments 7 then [] else ''.'')"

section \<open>Single-precision arithmetic\<close>

text \<open>
  The target evaluates \<^verbatim>\<open>float\<close> expressions in IEEE 754 binary32 with rounding to
  nearest, ties to even. A finite \<^verbatim>\<open>float\<close> is modelled by the rational it denotes,
  and every operation by the exact operation followed by \<open>f32\<close>, the rounding to the
  nearest binary32 value (24 significant bits, the exponent of the last place not below
  \<open>-149\<close>). Results beyond the largest finite binary32 value are not modelled: the values
  of this program stay below \<open>2 ^ 18\<close>.
\<close>

definition pow2 :: "int \<Rightarrow> rat" where
  "pow2 e = (if e \<ge> 0 then 2 ^ nat e else 1 / 2 ^ nat (- e))"

text \<open>For \<open>q \<noteq> 0\<close>, the integer \<open>k\<close> with \<open>2 ^ k \<le> \<bar>q\<bar> < 2 ^ (k + 1)\<close>.\<close>

definition ilog2 :: "rat \<Rightarrow> int" where
  "ilog2 q =
     (let (a, b) = quotient_of \<bar>q\<bar>; k = bitlen a - bitlen b
      in if pow2 k \<le> \<bar>q\<bar> then k else k - 1)"

definition round_even :: "rat \<Rightarrow> int" where
  "round_even x =
     (let f = \<lfloor>x\<rfloor>; r = x - of_int f
      in if r < 1 / 2 then f
         else if r > 1 / 2 then f + 1
         else if even f then f else f + 1)"

definition f32 :: "rat \<Rightarrow> rat" where
  "f32 q =
     (if q = 0 then 0
      else let e = max (ilog2 q - 23) (- 149)
           in of_int (round_even (q / pow2 e)) * pow2 e)"

text \<open>\<^verbatim>\<open>static_cast<int>(x)\<close> of a float: the fraction is discarded.\<close>

definition float_to_int :: "rat \<Rightarrow> fault + int" where
  "float_to_int x =
     (let t = (if x \<ge> 0 then \<lfloor>x\<rfloor> else \<lceil>x\<rceil>)
      in if INT_MIN \<le> t \<and> t \<le> INT_MAX then Inr t else Inl FloatToIntRange)"

section \<open>The main loop\<close>

text \<open>
  \<^verbatim>\<open>float voltage = potentiometer.read_u16() * 3.3f / 65535;\<close>

  The sample is converted to \<^verbatim>\<open>float\<close>, multiplied by the literal \<^verbatim>\<open>3.3f\<close>, and the
  product is divided by 65535 converted to \<^verbatim>\<open>float\<close>.
\<close>

definition voltage :: "u16 \<Rightarrow> rat" where
  "voltage raw = f32 (f32 (f32 (of_int (uint raw)) * f32 (33 / 10)) / f32 65535)"

text \<open>\<^verbatim>\<open>int displayVal = static_cast<int>(voltage * 1000);\<close>\<close>

definition displayVal :: "u16 \<Rightarrow> fault + int" where
  "displayVal raw = float_to_int (f32 (voltage raw * f32 1000))"

text \<open>\<^verbatim>\<open>int timeValue = minutes * 100 + seconds;\<close>\<close>

definition timeValue :: "clock \<Rightarrow> fault + int" where
  "timeValue c =
     (case checked (minutes c * 100) of
        Inl e \<Rightarrow> Inl e
      | Inr p \<Rightarrow> checked (p + seconds c))"

text \<open>
  What one pass of the loop reads: the level of the two buttons (high when released) and
  the sample of the potentiometer.
\<close>

record inputs =
  s1 :: bool
  s3 :: bool
  potentiometer :: u16

text \<open>
  One pass of \<^verbatim>\<open>while (true) { ... }\<close>:
  \<^verbatim>\<open>
  if (!s1) { seconds = minutes = 0; ThisThread::sleep_for(200ms); }
  if (!s3) { ... displayNumber(displayVal, true, 0); }
  else     { ... displayNumber(timeValue, true, 1); }
  \<close>
\<close>

definition main_iteration :: "inputs \<Rightarrow> clock \<times> board \<Rightarrow> fault + clock \<times> board" where
  "main_iteration inp st =
     (let (c, b) = (if \<not> s1 inp then (reset (fst st), sleep_for 200 (snd st)) else st)
      in if \<not> s3 inp then
           (case displayVal (potentiometer inp) of
              Inl e \<Rightarrow> Inl e
            | Inr v \<Rightarrow>
                (case displayNumber v True 0 b of
                   Inl e \<Rightarrow> Inl e
                 | Inr b' \<Rightarrow> Inr (c, b')))
         else
           (case timeValue c of
              Inl e \<Rightarrow> Inl e
            | Inr v \<Rightarrow>
                (case displayNumber v True 1 b of
                   Inl e \<Rightarrow> Inl e
                 | Inr b' \<Rightarrow> Inr (c, b'))))"

chapter \<open>Properties\<close>

section \<open>Lemmas on the counters\<close>

lemma updateTime_within:
  "INT_MIN \<le> s + 1 \<Longrightarrow> s + 1 < 60 \<Longrightarrow>
   updateTime \<lparr>seconds = s, minutes = m\<rparr> = Inr \<lparr>seconds = s + 1, minutes = m\<rparr>"
  by (simp add: updateTime_def checked_def INT_MAX_def)

lemma updateTime_rollover:
  "INT_MIN \<le> m + 1 \<Longrightarrow> m + 1 \<le> INT_MAX \<Longrightarrow>
   updateTime \<lparr>seconds = 59, minutes = m\<rparr>
     = Inr \<lparr>seconds = 0, minutes = (if m + 1 \<ge> 100 then 0 else m + 1)\<rparr>"
  by (simp add: updateTime_def checked_def INT_MAX_def INT_MIN_def)

lemma ticks_add:
  "ticks (a + b) c = (case ticks a c of Inl e \<Rightarrow> Inl e | Inr c' \<Rightarrow> ticks b c')"
  by (induction a arbitrary: c) (auto split: sum.splits)

lemma ticks_within:
  "0 \<le> s \<Longrightarrow> s + int n \<le> 59 \<Longrightarrow>
   ticks n \<lparr>seconds = s, minutes = m\<rparr> = Inr \<lparr>seconds = s + int n, minutes = m\<rparr>"
proof (induction n arbitrary: s)
  case 0
  then show ?case by simp
next
  case (Suc n)
  have "updateTime \<lparr>seconds = s, minutes = m\<rparr> = Inr \<lparr>seconds = s + 1, minutes = m\<rparr>"
    using Suc.prems by (intro updateTime_within) (simp_all add: INT_MIN_def)
  moreover have "ticks n \<lparr>seconds = s + 1, minutes = m\<rparr>
      = Inr \<lparr>seconds = s + 1 + int n, minutes = m\<rparr>"
    using Suc.prems by (intro Suc.IH) simp_all
  ultimately show ?case by (simp add: add.assoc add.commute)
qed

lemma ticks_minute:
  assumes "0 \<le> s" and "s \<le> 59" and "INT_MIN \<le> m" and "m < INT_MAX"
  shows "ticks 60 \<lparr>seconds = s, minutes = m\<rparr>
           = Inr \<lparr>seconds = s, minutes = (if m < 99 then m + 1 else 0)\<rparr>"
proof -
  define a where "a = nat (59 - s)"
  define b where "b = nat s"
  have split: "(60::nat) = a + Suc b"
    using assms by (simp add: a_def b_def)
  have before: "ticks a \<lparr>seconds = s, minutes = m\<rparr> = Inr \<lparr>seconds = 59, minutes = m\<rparr>"
    using ticks_within [of s a m] assms by (simp add: a_def)
  have rollover: "updateTime \<lparr>seconds = 59, minutes = m\<rparr>
      = Inr \<lparr>seconds = 0, minutes = (if m < 99 then m + 1 else 0)\<rparr>"
    using updateTime_rollover [of m] assms by (auto simp: INT_MIN_def)
  have after: "ticks b \<lparr>seconds = 0, minutes = m'\<rparr> = Inr \<lparr>seconds = s, minutes = m'\<rparr>"
    for m'
    using ticks_within [of 0 b m'] assms by (simp add: b_def)
  show ?thesis
    unfolding split ticks_add by (simp add: before rollover after)
qed

lemma ticks_minutes:
  "0 \<le> s \<Longrightarrow> s \<le> 59 \<Longrightarrow> 0 \<le> m \<Longrightarrow> m + int k \<le> 99 \<Longrightarrow>
   ticks (60 * k) \<lparr>seconds = s, minutes = m\<rparr> = Inr \<lparr>seconds = s, minutes = m + int k\<rparr>"
proof (induction k arbitrary: m)
  case 0
  then show ?case by simp
next
  case (Suc k)
  have step: "60 * Suc k = 60 + 60 * k" by simp
  have "ticks 60 \<lparr>seconds = s, minutes = m\<rparr> = Inr \<lparr>seconds = s, minutes = m + 1\<rparr>"
    using ticks_minute [of s m] Suc.prems by (simp add: INT_MIN_def INT_MAX_def)
  moreover have "ticks (60 * k) \<lparr>seconds = s, minutes = m + 1\<rparr>
      = Inr \<lparr>seconds = s, minutes = m + 1 + int k\<rparr>"
    using Suc.prems by (intro Suc.IH) simp_all
  ultimately show ?case
    unfolding step ticks_add by (simp add: add.assoc add.commute)
qed

lemma run_Ticks: "run (replicate n Tick) c = ticks n c"
  by (induction n arbitrary: c) (simp_all split: sum.splits)

text \<open>Every pair of values in the ranges is reached from the initial state.\<close>

lemma ticks_from_initial:
  "s < 60 \<Longrightarrow> m < 100 \<Longrightarrow>
   run (replicate (60 * m + s) Tick) initial = Inr \<lparr>seconds = int s, minutes = int m\<rparr>"
  using ticks_minutes [of 0 0 m] ticks_within [of 0 s "int m"]
  by (simp add: run_Ticks ticks_add initial_def)

lemma updateTime_in_range:
  "in_range c \<Longrightarrow> \<exists>c'. updateTime c = Inr c' \<and> in_range c'"
  by (auto simp: in_range_def updateTime_def checked_def INT_MAX_def INT_MIN_def)

lemma run_in_range:
  "in_range c \<Longrightarrow> \<exists>c'. run ops c = Inr c' \<and> in_range c'"
proof (induction ops arbitrary: c)
  case Nil
  then show ?case by simp
next
  case (Cons x ops)
  show ?case
  proof (cases x)
    case Tick
    from updateTime_in_range [OF Cons.prems] obtain c1
      where "updateTime c = Inr c1" "in_range c1" by blast
    with Cons.IH [of c1] Tick show ?thesis by simp
  next
    case Reset
    have "in_range (reset c)" by (simp add: in_range_def reset_def)
    with Cons.IH [of "reset c"] Reset show ?thesis by simp
  qed
qed

lemma updateTime_minutes:
  "in_range c \<Longrightarrow> \<exists>c'. updateTime c = Inr c' \<and>
     minutes c' = (if seconds c = 59 then (if minutes c = 99 then 0 else minutes c + 1)
                   else minutes c)"
  by (auto simp: in_range_def updateTime_def checked_def INT_MAX_def INT_MIN_def)

section \<open>The counters: C1 and C2\<close>

text \<open>
  C1, as the specification states it: from any \<open>s\<close> in 0..59 and any value of minutes,
  60 calls of \<open>updateTime\<close> bring seconds back to \<open>s\<close> and add exactly 1 to minutes.
  This fails when minutes is 99: the minute counter is limited to 99 and goes to 0.
\<close>

theorem updateTime_60_at_99:
  "ticks 60 \<lparr>seconds = 0, minutes = 99\<rparr> = Inr \<lparr>seconds = 0, minutes = 0\<rparr>
   \<and> (0::int) \<noteq> 99 + 1"
  by (simp add: numeral_eq_Suc updateTime_def checked_def INT_MAX_def INT_MIN_def)

text \<open>
  C1, amended: from any \<open>s\<close> in 0..59 and any minutes \<open>m\<close> below the largest
  \<^verbatim>\<open>int\<close>, 60 calls of \<open>updateTime\<close> run without a fault, bring seconds back to
  \<open>s\<close>, and leave minutes at \<open>m + 1\<close> when \<open>m < 99\<close> and at 0 otherwise.
\<close>

theorem updateTime_60:
  assumes "0 \<le> s" and "s \<le> 59" and "INT_MIN \<le> m" and "m < INT_MAX"
  shows "ticks 60 \<lparr>seconds = s, minutes = m\<rparr>
           = Inr \<lparr>seconds = s, minutes = (if m < 99 then m + 1 else 0)\<rparr>"
  using assms by (rule ticks_minute)

theorem updateTime_60_witness:
  "ticks 60 \<lparr>seconds = 17, minutes = 3\<rparr> = Inr \<lparr>seconds = 17, minutes = 4\<rparr>
   \<and> ticks 60 \<lparr>seconds = 59, minutes = 99\<rparr> = Inr \<lparr>seconds = 59, minutes = 0\<rparr>"
  using updateTime_60 [of 17 3] updateTime_60 [of 59 99]
  by (simp add: INT_MIN_def INT_MAX_def)

text \<open>
  C2: from the initial state (0, 0), every sequence of \<open>updateTime\<close> calls and resets runs
  without a fault and ends in a state with seconds in 0..59 and minutes in 0..99. From
  such a state \<open>updateTime\<close> changes minutes only when seconds is 59, and then to
  \<open>minutes + 1\<close>, or to 0 when that would be 100: minutes goes from a non-zero value to 0
  only when the incremented value is 100, and from 59 it goes to 60.
\<close>

theorem clock_invariant:
  "\<exists>c. run ops initial = Inr c
      \<and> 0 \<le> seconds c \<and> seconds c \<le> 59 \<and> 0 \<le> minutes c \<and> minutes c \<le> 99
      \<and> (\<exists>c'. updateTime c = Inr c'
             \<and> minutes c' = (if seconds c = 59
                             then (if minutes c = 99 then 0 else minutes c + 1)
                             else minutes c)
             \<and> (minutes c' = 0 \<and> minutes c \<noteq> 0 \<longrightarrow> minutes c + 1 = 100)
             \<and> (seconds c = 59 \<and> minutes c = 59 \<longrightarrow> minutes c' = 60))"
proof -
  have "in_range initial"
    by (simp add: in_range_def initial_def)
  from run_in_range [OF this] obtain c where c: "run ops initial = Inr c" "in_range c"
    by blast
  from updateTime_minutes [OF c(2)] obtain c' where c': "updateTime c = Inr c'"
    "minutes c' = (if seconds c = 59 then (if minutes c = 99 then 0 else minutes c + 1)
                   else minutes c)"
    by blast
  from c(2) have r: "0 \<le> seconds c" "seconds c \<le> 59" "0 \<le> minutes c" "minutes c \<le> 99"
    by (simp_all add: in_range_def)
  have "minutes c' = 0 \<and> minutes c \<noteq> 0 \<longrightarrow> minutes c + 1 = 100"
    using c'(2) r by (auto split: if_splits)
  moreover have "seconds c = 59 \<and> minutes c = 59 \<longrightarrow> minutes c' = 60"
    using c'(2) by simp
  ultimately show ?thesis
    using c(1) r c' by blast
qed

theorem clock_invariant_witness:
  "run (replicate 5999 Tick) initial = Inr \<lparr>seconds = 59, minutes = 99\<rparr>
   \<and> updateTime \<lparr>seconds = 59, minutes = 99\<rparr> = Inr \<lparr>seconds = 0, minutes = 0\<rparr>
   \<and> run (replicate 3599 Tick) initial = Inr \<lparr>seconds = 59, minutes = 59\<rparr>
   \<and> updateTime \<lparr>seconds = 59, minutes = 59\<rparr> = Inr \<lparr>seconds = 0, minutes = 60\<rparr>"
proof -
  have a: "run (replicate 5999 Tick) initial = Inr \<lparr>seconds = 59, minutes = 99\<rparr>"
    using ticks_from_initial [of 59 99] by simp
  have b: "run (replicate 3599 Tick) initial = Inr \<lparr>seconds = 59, minutes = 59\<rparr>"
    using ticks_from_initial [of 59 59] by simp
  show ?thesis
    using clock_invariant [of "replicate 5999 Tick"] clock_invariant [of "replicate 3599 Tick"]
    by (simp add: a b updateTime_def checked_def INT_MIN_def INT_MAX_def)
qed

section \<open>The shift register driver: C6 and C7\<close>

lemma data_bit: "(drop_bit n (uint (v::u8)) AND 1 \<noteq> 0) = bit v n"
proof -
  have "drop_bit n (uint v) AND 1 = of_bool (odd (drop_bit n (uint v)))"
    by (simp add: and_one_eq mod_2_eq_odd)
  also have "odd (drop_bit n (uint v)) = bit (uint v) n"
    by (simp add: bit_iff_odd_drop_bit)
  finally show ?thesis
    by (auto simp add: bit_uint_iff dest: bit_imp_le_length)
qed

lemma shiftOut_from_neg: "i < 0 \<Longrightarrow> shiftOut_from i v b = b"
  by (simp add: shiftOut_from.simps)

lemma shiftOut_from_step:
  "shiftOut_from (int n) v b =
     shiftOut_from (int n - 1) v
       (write_clockPin 0 (write_clockPin 1 (write_dataPin (of_bool (bit v n)) b)))"
proof -
  have "write_dataPin (drop_bit n (uint v) AND 1) b = write_dataPin (of_bool (bit v n)) b"
    by (simp add: write_dataPin_def data_bit)
  then show ?thesis
    by (subst shiftOut_from.simps) simp
qed

text \<open>The loop entered at \<open>n - 1\<close> sends the bits \<open>n - 1, ..., 0\<close>, in this order.\<close>

lemma shiftOut_from_trace:
  "trace (shiftOut_from (int n - 1) v b) =
     trace b @ concat (map (\<lambda>i. [Write Data (bit v i), Write Clock True, Write Clock False])
                        (rev [0..<n]))"
proof (induction n arbitrary: b)
  case 0
  then show ?case by (simp add: shiftOut_from_neg)
next
  case (Suc n)
  have "shiftOut_from (int (Suc n) - 1) v b = shiftOut_from (int n) v b" by simp
  then show ?case
    by (simp add: shiftOut_from_step Suc.IH write_clockPin_def write_dataPin_def)
qed

lemma shiftOut_from_latchPin: "latchPin (shiftOut_from (int n - 1) v b) = latchPin b"
proof (induction n arbitrary: b)
  case 0
  then show ?case by (simp add: shiftOut_from_neg)
next
  case (Suc n)
  have "shiftOut_from (int (Suc n) - 1) v b = shiftOut_from (int n) v b" by simp
  then show ?case
    by (simp add: shiftOut_from_step Suc.IH write_clockPin_def write_dataPin_def)
qed

lemma shiftOut_trace: "trace (shiftOut v b) = trace b @ msb_first v"
  using shiftOut_from_trace [of 8 v b]
  by (simp add: shiftOut_def msb_first_def upt_rec numeral_eq_Suc)

lemma shiftOut_latchPin: "latchPin (shiftOut v b) = latchPin b"
  using shiftOut_from_latchPin [of 8 v b] by (simp add: shiftOut_def)

text \<open>
  C6: for every byte, \<open>shiftOut\<close> appends to the trace, for each bit position from 7 down
  to 0, a write of that bit of the byte to the data line followed by a write of high and
  a write of low to the clock line: 24 events with exactly 8 clock pulses. The latch line
  is not touched.
\<close>

theorem shiftOut_msb_first:
  "trace (shiftOut v b) = trace b @ msb_first v
   \<and> msb_first v =
       [Write Data (bit v 7), Write Clock True, Write Clock False,
        Write Data (bit v 6), Write Clock True, Write Clock False,
        Write Data (bit v 5), Write Clock True, Write Clock False,
        Write Data (bit v 4), Write Clock True, Write Clock False,
        Write Data (bit v 3), Write Clock True, Write Clock False,
        Write Data (bit v 2), Write Clock True, Write Clock False,
        Write Data (bit v 1), Write Clock True, Write Clock False,
        Write Data (bit v 0), Write Clock True, Write Clock False]
   \<and> length (filter (\<lambda>e. e = Write Clock True) (msb_first v)) = 8
   \<and> length (filter (\<lambda>e. e = Write Clock False) (msb_first v)) = 8
   \<and> filter (on_line Latch) (msb_first v) = []"
  by (simp add: shiftOut_trace) (simp add: msb_first_def)

text \<open>
  C7: for every pair of bytes, \<open>writeToShiftRegister\<close> appends to the trace a write of
  low to the latch line, then the 8 bits of \<open>segments\<close>, then the 8 bits of the digit
  selection, then a write of high to the latch line. These are its only two writes to the
  latch line, so both bytes are committed by one rising edge, and the latch is left high.
\<close>

theorem writeToShiftRegister_trace:
  "trace (writeToShiftRegister segments digit b) =
     trace b @ [Write Latch False] @ msb_first segments @ msb_first digit @ [Write Latch True]
   \<and> filter (on_line Latch) (trace (writeToShiftRegister segments digit b))
      = filter (on_line Latch) (trace b) @ [Write Latch False, Write Latch True]
   \<and> latchPin (writeToShiftRegister segments digit b)"
  by (simp add: writeToShiftRegister_def write_latchPin_def shiftOut_trace)
     (simp add: msb_first_def)

section \<open>The display: C4, C5, C9 and C10\<close>

lemma digits_nonneg:
  "0 \<le> x \<Longrightarrow> digits x = [x div 1000 mod 10, x div 100 mod 10, x div 10 mod 10, x mod 10]"
  by (simp add: digits_def signed_divide_int_def signed_modulo_int_def sgn_if
      pos_imp_zdiv_nonneg_iff)

lemma digitPattern_values:
  "digitPattern = [0xC0, 0xF9, 0xA4, 0xB0, 0x99, 0x92, 0x82, 0xF8, 0x80, 0x90]"
  by (simp add: digitPattern_def)

lemma digit_cases:
  "0 \<le> d \<Longrightarrow> d \<le> 9 \<Longrightarrow>
   d = 0 \<or> d = 1 \<or> d = 2 \<or> d = 3 \<or> d = 4 \<or> d = 5 \<or> d = 6 \<or> d = 7 \<or> d = 8 \<or> d = (9::int)"
  by arith

lemma pattern_bit7:
  assumes "0 \<le> d" and "d \<le> 9"
  shows "\<exists>p. array_read digitPattern d = Inr p \<and> bit p 7"
  using digit_cases [OF assms]
  by (auto simp: array_read_def digitPattern_values)

lemma array_read_digitPattern:
  assumes "array_read digitPattern d = Inr p"
  shows "0 \<le> d \<and> d \<le> 9 \<and> bit p 7"
proof -
  have "0 \<le> d \<and> d \<le> 9"
    using assms by (simp add: array_read_def digitPattern_values split: if_splits)
  with pattern_bit7 [of d] assms show ?thesis by auto
qed

lemma bit_128: "bit (128::int) n \<longleftrightarrow> n = 7"
  using bit_exp_iff [where ?'a = int, of 7 n] by simp

lemma clear_dp:
  "bit (word_of_int (uint (p::u8) AND NOT 0x80) :: u8) n \<longleftrightarrow> bit p n \<and> n \<noteq> 7"
  by (auto simp add: bit_simps bit_128 dest: bit_imp_le_length)

lemma clear_dp':
  "bit (word_of_int (uint (p::u8) AND - 129) :: u8) n \<longleftrightarrow> bit p n \<and> n \<noteq> 7"
  using clear_dp [of p n] by simp

lemma mod_10_le_9: "(y::int) mod 10 \<le> 9"
  using pos_mod_bound [of 10 y] by linarith

lemma digits_range:
  assumes "0 \<le> x"
  shows "list_all (\<lambda>d. 0 \<le> d \<and> d \<le> 9) (digits x)"
  by (simp add: digits_nonneg [OF assms] mod_10_le_9)

text \<open>Whenever the byte of a slot is computed, its bit 7 is clear exactly on request.\<close>

lemma segments_at_bit7:
  assumes "segments_at ds sd dp i = Inr seg"
  shows "bit seg 7 \<longleftrightarrow> \<not> (sd \<and> dp = i)"
proof -
  from assms obtain d p where "array_read digitPattern d = Inr p"
    and seg: "seg = (if sd \<and> i = dp then word_of_int (uint p AND NOT 0x80) else p)"
    by (auto simp: segments_at_def split: sum.splits)
  then have "bit p 7"
    using array_read_digitPattern by blast
  then show ?thesis
    unfolding seg by (auto simp: clear_dp')
qed

lemma segments_at_nonneg:
  assumes "0 \<le> x" and "0 \<le> i" and "i < 4"
  shows "\<exists>seg. segments_at (digits x) sd dp i = Inr seg"
proof -
  have len: "length (digits x) = 4"
    by (simp add: digits_def)
  define d where "d = digits x ! nat i"
  have "nat i < length (digits x)"
    using assms len by simp
  with digits_range [OF assms(1)] have "0 \<le> d \<and> d \<le> 9"
    unfolding d_def list_all_length by blast
  with pattern_bit7 [of d] obtain p where p: "array_read digitPattern d = Inr p"
    by blast
  have "array_read (digits x) i = Inr d"
    using assms len by (simp add: array_read_def d_def)
  with p show ?thesis
    by (simp add: segments_at_def)
qed

lemma displayNumber_from_4: "displayNumber_from 4 ds sd dp b = Inr b"
  by (subst displayNumber_from.simps) simp

lemma displayNumber_from_slot:
  assumes "0 \<le> i" and "i < 4" and "segments_at ds sd dp i = Inr seg"
  shows "displayNumber_from i ds sd dp b =
     displayNumber_from (i + 1) ds sd dp
       (sleep_for 2 (writeToShiftRegister seg (digitPos ! nat i) b))"
  using assms by (subst displayNumber_from.simps) (simp add: array_read_def digitPos_def)

lemma displayNumber_from_fault:
  "0 \<le> i \<Longrightarrow> i < 4 \<Longrightarrow> segments_at ds sd dp i = Inl e \<Longrightarrow>
   displayNumber_from i ds sd dp b = Inl e"
  by (subst displayNumber_from.simps) simp

lemma displayNumber_from_frame:
  assumes "segments_at ds sd dp 0 = Inr seg0" and "segments_at ds sd dp 1 = Inr seg1"
    and "segments_at ds sd dp 2 = Inr seg2" and "segments_at ds sd dp 3 = Inr seg3"
  shows "displayNumber_from 0 ds sd dp b
           = Inr (show_frame [(seg0, 0x01), (seg1, 0x02), (seg2, 0x04), (seg3, 0x08)] b)"
  by (simp add: displayNumber_from_slot [of 0, OF _ _ assms(1)]
      displayNumber_from_slot [of 1, OF _ _ assms(2)]
      displayNumber_from_slot [of 2, OF _ _ assms(3)]
      displayNumber_from_slot [of 3, OF _ _ assms(4)]
      displayNumber_from_4 digitPos_def show_frame_def)

text \<open>
  A call with a non-negative number commits no fault and shows four slots, left to right,
  each with its decimal point lit exactly when it was requested for that slot.
\<close>

lemma displayNumber_nonneg:
  assumes "0 \<le> x"
  shows "\<exists>seg0 seg1 seg2 seg3.
     displayNumber x sd dp b
       = Inr (show_frame [(seg0, 0x01), (seg1, 0x02), (seg2, 0x04), (seg3, 0x08)] b)
     \<and> (bit seg0 7 \<longleftrightarrow> \<not> (sd \<and> dp = 0)) \<and> (bit seg1 7 \<longleftrightarrow> \<not> (sd \<and> dp = 1))
     \<and> (bit seg2 7 \<longleftrightarrow> \<not> (sd \<and> dp = 2)) \<and> (bit seg3 7 \<longleftrightarrow> \<not> (sd \<and> dp = 3))"
proof -
  obtain seg0 where seg0: "segments_at (digits x) sd dp 0 = Inr seg0"
    using segments_at_nonneg [OF assms, of 0 sd dp] by auto
  obtain seg1 where seg1: "segments_at (digits x) sd dp 1 = Inr seg1"
    using segments_at_nonneg [OF assms, of 1 sd dp] by auto
  obtain seg2 where seg2: "segments_at (digits x) sd dp 2 = Inr seg2"
    using segments_at_nonneg [OF assms, of 2 sd dp] by auto
  obtain seg3 where seg3: "segments_at (digits x) sd dp 3 = Inr seg3"
    using segments_at_nonneg [OF assms, of 3 sd dp] by auto
  have shown: "displayNumber x sd dp b
      = Inr (show_frame [(seg0, 0x01), (seg1, 0x02), (seg2, 0x04), (seg3, 0x08)] b)"
    unfolding displayNumber_def
    using seg0 seg1 seg2 seg3 by (rule displayNumber_from_frame)
  show ?thesis
    using shown segments_at_bit7 [OF seg0] segments_at_bit7 [OF seg1]
      segments_at_bit7 [OF seg2] segments_at_bit7 [OF seg3]
    by blast
qed

lemma digits_1234: "digits 1234 = [1, 2, 3, 4]"
  by (simp add: digits_def signed_divide_int_def signed_modulo_int_def)

lemma digits_12345: "digits 12345 = [2, 3, 4, 5]"
  by (simp add: digits_def signed_divide_int_def signed_modulo_int_def)

lemma segments_at_digit:
  assumes "0 \<le> i" and "i < int (length ds)" and "ds ! nat i = d" and "0 \<le> d" and "d \<le> 9"
  shows "segments_at ds sd dp i =
      Inr (if sd \<and> i = dp then word_of_int (uint (digitPattern ! nat d) AND NOT 0x80)
           else digitPattern ! nat d)"
  using assms by (simp add: segments_at_def array_read_def digitPattern_def)

lemma mod_div_shift:
  "0 < a \<Longrightarrow> 0 \<le> c \<Longrightarrow> n = a * c \<Longrightarrow> (x mod n) div a = x div a mod (c::int)"
  by (simp add: zmod_zmult2_eq)

lemma digits_low4:
  assumes "0 \<le> x"
  shows "digits (x mod 10000) = digits x"
proof -
  have nonneg: "0 \<le> x mod 10000"
    by (rule pos_mod_sign) simp
  have "x mod 10000 div 1000 = x div 1000 mod 10"
    by (rule mod_div_shift) simp_all
  then have d3: "x mod 10000 div 1000 mod 10 = x div 1000 mod 10"
    by (simp only: mod_mod_trivial)
  have "x mod 10000 div 100 = x div 100 mod 100"
    by (rule mod_div_shift) simp_all
  moreover have "x div 100 mod 100 mod 10 = x div 100 mod 10"
    by (rule mod_mod_cancel) simp
  ultimately have d2: "x mod 10000 div 100 mod 10 = x div 100 mod 10"
    by (simp only:)
  have "x mod 10000 div 10 = x div 10 mod 1000"
    by (rule mod_div_shift) simp_all
  moreover have "x div 10 mod 1000 mod 10 = x div 10 mod 10"
    by (rule mod_mod_cancel) simp
  ultimately have d1: "x mod 10000 div 10 mod 10 = x div 10 mod 10"
    by (simp only:)
  have d0: "x mod 10000 mod 10 = x mod 10"
    by (rule mod_mod_cancel) simp
  show ?thesis
    unfolding digits_nonneg [OF assms] digits_nonneg [OF nonneg]
    by (simp only: d3 d2 d1 d0)
qed

lemma digits_minus_1: "digits (- 1) = [0, 0, 0, - 1]"
  by (simp add: digits_def signed_divide_int_def signed_modulo_int_def)

lemma displayNumber_1234_point:
  "displayNumber 1234 True 1 b
     = Inr (show_frame [(0xF9, 0x01), (0x24, 0x02), (0xB0, 0x04), (0x99, 0x08)] b)"
  unfolding displayNumber_def digits_1234
  by (rule displayNumber_from_frame) (simp_all add: segments_at_digit digitPattern_values)

text \<open>
  C4: \<open>displayNumber\<close> takes the digits (thousands, hundreds, tens, units) of its
  argument, each modulo 10. \<open>displayNumber(1234)\<close> has the digit sequence 1, 2, 3, 4 and
  shows the patterns of these digits on slots 0 to 3; \<open>displayNumber(12345)\<close> has the
  digit sequence 2, 3, 4, 5: only the low four decimal digits. For every non-negative
  argument the digits are those of the argument modulo 10000.
\<close>

theorem displayNumber_digits:
  "digits 1234 = [1, 2, 3, 4]
   \<and> displayNumber 1234 False 1 b
       = Inr (show_frame [(digitPattern ! 1, 0x01), (digitPattern ! 2, 0x02),
                          (digitPattern ! 3, 0x04), (digitPattern ! 4, 0x08)] b)
   \<and> digits 12345 = [2, 3, 4, 5]
   \<and> displayNumber 12345 False 1 b
       = Inr (show_frame [(digitPattern ! 2, 0x01), (digitPattern ! 3, 0x02),
                          (digitPattern ! 4, 0x04), (digitPattern ! 5, 0x08)] b)
   \<and> (0 \<le> x \<longrightarrow>
        digits x = [x div 1000 mod 10, x div 100 mod 10, x div 10 mod 10, x mod 10]
        \<and> digits (x mod 10000) = digits x)"
proof -
  have a: "displayNumber 1234 False 1 b
       = Inr (show_frame [(digitPattern ! 1, 0x01), (digitPattern ! 2, 0x02),
                          (digitPattern ! 3, 0x04), (digitPattern ! 4, 0x08)] b)"
    unfolding displayNumber_def digits_1234
    by (rule displayNumber_from_frame)
      (simp_all add: segments_at_digit)
  have b: "displayNumber 12345 False 1 b
       = Inr (show_frame [(digitPattern ! 2, 0x01), (digitPattern ! 3, 0x02),
                          (digitPattern ! 4, 0x04), (digitPattern ! 5, 0x08)] b)"
    unfolding displayNumber_def digits_12345
    by (rule displayNumber_from_frame)
      (simp_all add: segments_at_digit)
  have c: "0 \<le> x \<longrightarrow>
        digits x = [x div 1000 mod 10, x div 100 mod 10, x div 10 mod 10, x mod 10]
        \<and> digits (x mod 10000) = digits x"
    using digits_nonneg [of x] digits_low4 [of x] by blast
  show ?thesis
    using a b c digits_1234 digits_12345 by blast
qed

theorem displayNumber_digits_witness:
  "(0::int) \<le> 12345
   \<and> digits 12345 = [12345 div 1000 mod 10, 12345 div 100 mod 10, 12345 div 10 mod 10,
                       12345 mod 10]
   \<and> digits (12345 mod 10000) = [2, 3, 4, 5]"
  using displayNumber_digits [of power_on 12345] by (simp add: digits_12345)


text \<open>
  C5, as the specification states it: for every number \<open>x\<close>, \<open>displayNumber(x, true, 1)\<close>
  writes a segment byte for each slot, with bit 7 clear on slot 1 only. This fails for a
  negative \<open>x\<close>: the remainder \<^verbatim>\<open>%\<close> of a negative number is negative, here the units
  digit of \<open>-1\<close> is \<open>-1\<close>, and reading \<open>digitPattern[-1]\<close> is outside the table.
\<close>

theorem displayNumber_negative:
  "displayNumber (- 1) True 1 power_on = Inl OutOfBounds"
proof -
  have slot: "segments_at [0, 0, 0, - 1] True 1 0 = Inr (digitPattern ! 0)"
    "segments_at [0, 0, 0, - 1] True 1 1 = Inr (word_of_int (uint (digitPattern ! 0) AND NOT 0x80))"
    "segments_at [0, 0, 0, - 1] True 1 2 = Inr (digitPattern ! 0)"
    by (simp_all add: segments_at_digit)
  have last: "segments_at [0, 0, 0, - 1] True 1 3 = Inl OutOfBounds"
    by (simp add: segments_at_def array_read_def)
  show ?thesis
    by (simp add: displayNumber_def digits_minus_1
        displayNumber_from_slot [of 0, OF _ _ slot(1)]
        displayNumber_from_slot [of 1, OF _ _ slot(2)]
        displayNumber_from_slot [of 2, OF _ _ slot(3)]
        displayNumber_from_fault [of 3, OF _ _ last])
qed

text \<open>
  C5, amended: for every non-negative number \<open>x\<close>, \<open>displayNumber(x, true, 1)\<close> commits
  no fault and writes four segment bytes, for the slots 0, 1, 2, 3 in this order; bit 7 is
  clear in the byte of slot 1 and set in the bytes of the slots 0, 2 and 3.
\<close>

theorem displayNumber_decimal_slot_1:
  assumes "0 \<le> x"
  shows "\<exists>seg0 seg1 seg2 seg3.
     displayNumber x True 1 b
       = Inr (show_frame [(seg0, 0x01), (seg1, 0x02), (seg2, 0x04), (seg3, 0x08)] b)
     \<and> bit seg0 7 \<and> \<not> bit seg1 7 \<and> bit seg2 7 \<and> bit seg3 7"
  using displayNumber_nonneg [OF assms, of True 1 b] by simp

theorem displayNumber_decimal_slot_1_witness:
  "(0::int) \<le> 1234
   \<and> displayNumber 1234 True 1 power_on
       = Inr (show_frame [(0xF9, 0x01), (0x24, 0x02), (0xB0, 0x04), (0x99, 0x08)] power_on)
   \<and> bit (0xF9 :: u8) 7 \<and> \<not> bit (0x24 :: u8) 7 \<and> bit (0xB0 :: u8) 7 \<and> bit (0x99 :: u8) 7"
  using displayNumber_decimal_slot_1 [of 1234 power_on]
  by (simp add: displayNumber_1234_point)

text \<open>
  C9: for every non-negative number, each of the four digits that \<open>displayNumber\<close>
  computes is in 0..9, below the length 10 of \<open>digitPattern\<close>, so each read of the table
  is in bounds, and the call commits no fault.
\<close>

theorem digits_index_in_bounds:
  assumes "0 \<le> number"
  shows "list_all (\<lambda>d. 0 \<le> d \<and> d \<le> 9 \<and> d < int (length digitPattern)
                     \<and> array_read digitPattern d = Inr (digitPattern ! nat d))
           (digits number)
         \<and> length (digits number) = 4
         \<and> length digitPattern = 10
         \<and> (\<exists>b'. displayNumber number showDecimal decimalPos b = Inr b')"
proof -
  have len: "length digitPattern = 10"
    by (simp add: digitPattern_def)
  have "list_all (\<lambda>d. 0 \<le> d \<and> d \<le> 9) (digits number)"
    using assms by (rule digits_range)
  then have "list_all (\<lambda>d. 0 \<le> d \<and> d \<le> 9 \<and> d < int (length digitPattern)
                     \<and> array_read digitPattern d = Inr (digitPattern ! nat d))
           (digits number)"
    by (rule list.pred_mono_strong) (simp add: array_read_def len)
  moreover have "length (digits number) = 4"
    by (simp add: digits_def)
  moreover have "\<exists>b'. displayNumber number showDecimal decimalPos b = Inr b'"
    using displayNumber_nonneg [OF assms, of showDecimal decimalPos b] by blast
  ultimately show ?thesis
    using len by blast
qed

theorem digits_index_in_bounds_witness:
  "(0::int) \<le> 9876
   \<and> digits 9876 = [9, 8, 7, 6]
   \<and> array_read digitPattern 9 = Inr (digitPattern ! 9)
   \<and> array_read digitPattern 6 = Inr (digitPattern ! 6)"
  using digits_index_in_bounds [of 9876]
  by (simp add: digits_def signed_divide_int_def signed_modulo_int_def)

text \<open>
  C10, as the specification states it: each of the 10 entries of \<open>digitPattern\<close> has
  bit 7 set, so in any call to \<open>displayNumber\<close> the decimal point is lit only on the slot
  where the function clears bit 7. The consequence fails for a call with a negative
  number: in \<open>displayNumber(-1)\<close> (no decimal point requested) the units digit is \<open>-1\<close>,
  and the byte of slot 3 is not an entry of the table but a read outside of it, of which
  the table says nothing.
\<close>

theorem displayNumber_outside_table:
  "segments_at (digits (- 1)) False 1 3 = Inl OutOfBounds
   \<and> displayNumber (- 1) False 1 power_on = Inl OutOfBounds"
proof -
  have slot: "segments_at [0, 0, 0, - 1] False 1 0 = Inr (digitPattern ! 0)"
    "segments_at [0, 0, 0, - 1] False 1 1 = Inr (digitPattern ! 0)"
    "segments_at [0, 0, 0, - 1] False 1 2 = Inr (digitPattern ! 0)"
    by (simp_all add: segments_at_digit)
  have last: "segments_at [0, 0, 0, - 1] False 1 3 = Inl OutOfBounds"
    by (simp add: segments_at_def array_read_def)
  have "displayNumber (- 1) False 1 power_on = Inl OutOfBounds"
    by (simp add: displayNumber_def digits_minus_1
        displayNumber_from_slot [of 0, OF _ _ slot(1)]
        displayNumber_from_slot [of 1, OF _ _ slot(2)]
        displayNumber_from_slot [of 2, OF _ _ slot(3)]
        displayNumber_from_fault [of 3, OF _ _ last])
  with last show ?thesis
    by (simp add: digits_minus_1)
qed

text \<open>
  C10, amended: each of the 10 entries of \<open>digitPattern\<close> has bit 7 set, so in any call
  to \<open>displayNumber\<close> with a non-negative number the decimal point is lit only on the slot
  where the function clears bit 7, never as a side effect of a digit's pattern: the call
  commits no fault and writes four bytes, and bit 7 of the byte of a slot is clear exactly
  when the decimal point was requested for that slot. More generally, whenever the byte
  of a slot is computed from an entry of the table, its bit 7 is clear exactly on request.
\<close>

theorem digitPattern_decimal_point_off:
  "length digitPattern = 10
   \<and> list_all (\<lambda>p. bit p 7) digitPattern
   \<and> (segments_at ds sd dp i = Inr seg \<longrightarrow> (bit seg 7 \<longleftrightarrow> \<not> (sd \<and> dp = i)))
   \<and> (0 \<le> x \<longrightarrow>
        (\<exists>seg0 seg1 seg2 seg3.
           displayNumber x sd dp b
             = Inr (show_frame [(seg0, 0x01), (seg1, 0x02), (seg2, 0x04), (seg3, 0x08)] b)
           \<and> (bit seg0 7 \<longleftrightarrow> \<not> (sd \<and> dp = 0)) \<and> (bit seg1 7 \<longleftrightarrow> \<not> (sd \<and> dp = 1))
           \<and> (bit seg2 7 \<longleftrightarrow> \<not> (sd \<and> dp = 2)) \<and> (bit seg3 7 \<longleftrightarrow> \<not> (sd \<and> dp = 3))))"
proof -
  have "length digitPattern = 10"
    by (simp add: digitPattern_def)
  moreover have "list_all (\<lambda>p. bit p 7) digitPattern"
    by (simp add: digitPattern_values)
  moreover have "segments_at ds sd dp i = Inr seg \<longrightarrow> (bit seg 7 \<longleftrightarrow> \<not> (sd \<and> dp = i))"
    using segments_at_bit7 [of ds sd dp i seg] by blast
  moreover note displayNumber_nonneg [of x sd dp b]
  ultimately show ?thesis
    by blast
qed

theorem digitPattern_decimal_point_off_witness:
  "segments_at (digits 5078) True 2 2 = Inr 0x78
   \<and> \<not> bit (0x78 :: u8) 7
   \<and> segments_at (digits 5078) True 2 3 = Inr 0x80
   \<and> bit (0x80 :: u8) 7
   \<and> (0::int) \<le> 5078"
proof -
  have d: "digits 5078 = [5, 0, 7, 8]"
    by (simp add: digits_def signed_divide_int_def signed_modulo_int_def)
  have "segments_at (digits 5078) True 2 2 = Inr 0x78"
    and "segments_at (digits 5078) True 2 3 = Inr 0x80"
    unfolding d by (simp_all add: segments_at_digit digitPattern_values)
  then show ?thesis
    using digitPattern_decimal_point_off [of "digits 5078" True 2 2 "0x78" 5078 power_on]
      digitPattern_decimal_point_off [of "digits 5078" True 2 3 "0x80" 5078 power_on]
    by simp
qed


section \<open>The stopwatch end to end: C8\<close>

lemma digits_400: "digits 400 = [0, 4, 0, 0]"
  by (simp add: digits_def signed_divide_int_def signed_modulo_int_def)

lemma clear_dp_word: "(word_of_int (uint (p::u8) AND NOT 0x80) :: u8) = p AND NOT 0x80"
  by (rule bit_word_eqI) (auto simp add: bit_simps bit_128 dest: bit_imp_le_length)

lemma clear_dp_word':
  "(word_of_int (uint (p::u8) AND - 129) :: u8) = p AND - 129"
  using clear_dp_word [of p] by simp

lemma char_of_digits:
  "char_of (48::nat) = CHR ''0''" "char_of (52::nat) = CHR ''4''"
  by code_simp+

lemma displayNumber_400:
  "displayNumber 400 True 1 b
     = Inr (show_frame [(digitPattern ! 0, 0x01), (digitPattern ! 4 AND NOT 0x80, 0x02),
                        (digitPattern ! 0, 0x04), (digitPattern ! 0, 0x08)] b)"
  unfolding displayNumber_def digits_400
  by (rule displayNumber_from_frame) (simp_all add: segments_at_digit clear_dp_word')

lemma timeValue_0_4: "timeValue \<lparr>seconds = 0, minutes = 4\<rparr> = Inr 400"
  by (simp add: timeValue_def checked_def INT_MIN_def INT_MAX_def)

lemma reading_0400:
  "concat (map reading [digitPattern ! 0, digitPattern ! 4 AND NOT 0x80,
                        digitPattern ! 0, digitPattern ! 0]) = ''04.00''"
  by (simp add: reading_def digitPattern_values upt_rec char_of_digits)

text \<open>
  C8: from seconds = 59, minutes = 3, one call of \<open>updateTime\<close> gives seconds = 0,
  minutes = 4. The main loop (no button pressed) then computes the display value
  \<open>minutes * 100 + seconds = 400\<close>, whose digits are 0, 4, 0, 0, and \<open>displayNumber\<close>
  shows the patterns of these digits with the decimal point lit on slot 1 only: the
  display reads 04.00.
\<close>

theorem stopwatch_scenario:
  "updateTime \<lparr>seconds = 59, minutes = 3\<rparr> = Inr \<lparr>seconds = 0, minutes = 4\<rparr>
   \<and> timeValue \<lparr>seconds = 0, minutes = 4\<rparr> = Inr 400
   \<and> digits 400 = [0, 4, 0, 0]
   \<and> displayNumber 400 True 1 b
       = Inr (show_frame [(digitPattern ! 0, 0x01), (digitPattern ! 4 AND NOT 0x80, 0x02),
                          (digitPattern ! 0, 0x04), (digitPattern ! 0, 0x08)] b)
   \<and> main_iteration \<lparr>s1 = True, s3 = True, potentiometer = raw\<rparr>
         (\<lparr>seconds = 0, minutes = 4\<rparr>, b)
       = Inr (\<lparr>seconds = 0, minutes = 4\<rparr>,
              show_frame [(digitPattern ! 0, 0x01), (digitPattern ! 4 AND NOT 0x80, 0x02),
                          (digitPattern ! 0, 0x04), (digitPattern ! 0, 0x08)] b)
   \<and> concat (map reading [digitPattern ! 0, digitPattern ! 4 AND NOT 0x80,
                           digitPattern ! 0, digitPattern ! 0]) = ''04.00''"
proof -
  have "updateTime \<lparr>seconds = 59, minutes = 3\<rparr> = Inr \<lparr>seconds = 0, minutes = 4\<rparr>"
    by (simp add: updateTime_def checked_def INT_MIN_def INT_MAX_def)
  moreover have "main_iteration \<lparr>s1 = True, s3 = True, potentiometer = raw\<rparr>
         (\<lparr>seconds = 0, minutes = 4\<rparr>, b)
       = Inr (\<lparr>seconds = 0, minutes = 4\<rparr>,
              show_frame [(digitPattern ! 0, 0x01), (digitPattern ! 4 AND NOT 0x80, 0x02),
                          (digitPattern ! 0, 0x04), (digitPattern ! 0, 0x08)] b)"
    by (simp add: main_iteration_def timeValue_0_4 displayNumber_400)
  ultimately show ?thesis
    using timeValue_0_4 digits_400 displayNumber_400 reading_0400 by blast
qed

section \<open>Single precision: the rounding is to the nearest value\<close>

text \<open>Some values of the rounding: the literal \<^verbatim>\<open>3.3f\<close>, a third, and a tie.\<close>

lemma f32_examples:
  "f32 (33 / 10) = 13841203 / 2 ^ 22"
  "f32 (1 / 3) = 11184811 / 2 ^ 25"
  "f32 16777217 = 16777216"
  "f32 16777219 = 16777220"
  by code_simp+

lemma pow2_powi: "pow2 e = 2 powi e"
  by (simp add: pow2_def power_int_def inverse_eq_divide power_one_over)

lemma pow2_pos: "0 < pow2 e"
  by (simp add: pow2_def)

lemma pow2_add: "pow2 (a + b) = pow2 a * pow2 b"
  by (simp add: pow2_powi power_int_add)

lemma pow2_mono: "a \<le> b \<Longrightarrow> pow2 a \<le> pow2 b"
  by (simp add: pow2_powi power_int_increasing)

lemma round_even_nearest: "\<bar>of_int (round_even x) - x\<bar> \<le> \<bar>of_int n - x\<bar>"
proof -
  define f where "f = \<lfloor>x\<rfloor>"
  define r where "r = x - of_int f"
  have r: "0 \<le> r" "r < 1" unfolding r_def f_def by linarith+
  have x: "x = of_int f + r" by (simp add: r_def)
  consider "n \<le> f" | "f + 1 \<le> n" by linarith
  then have far: "min r (1 - r) \<le> \<bar>of_int n - x\<bar>"
  proof cases
    case 1
    then have "(of_int n :: rat) \<le> of_int f" by simp
    then show ?thesis unfolding x using r by linarith
  next
    case 2
    then have "(of_int f :: rat) + 1 \<le> of_int n" by (metis of_int_1 of_int_add of_int_le_iff)
    then show ?thesis unfolding x using r by linarith
  qed
  have "\<bar>of_int (round_even x) - x\<bar> = min r (1 - r)"
    unfolding round_even_def Let_def f_def [symmetric] r_def [symmetric]
    using r by (auto simp: x min_def)
  with far show ?thesis by simp
qed

lemma round_even_half: "\<bar>of_int (round_even x) - x\<bar> \<le> 1 / 2"
proof -
  have "\<bar>of_int (round_even x) - x\<bar> \<le> \<bar>of_int \<lfloor>x\<rfloor> - x\<bar>"
    "\<bar>of_int (round_even x) - x\<bar> \<le> \<bar>of_int (\<lfloor>x\<rfloor> + 1) - x\<bar>"
    by (rule round_even_nearest)+
  then show ?thesis by (simp add: abs_if split: if_splits) linarith+
qed

lemma ilog2_bounds:
  assumes "q \<noteq> 0"
  shows "pow2 (ilog2 q) \<le> \<bar>q\<bar> \<and> \<bar>q\<bar> < pow2 (ilog2 q + 1)"
proof -
  obtain a b where ab: "quotient_of \<bar>q\<bar> = (a, b)" by (cases "quotient_of \<bar>q\<bar>")
  then have b: "0 < b" and q: "\<bar>q\<bar> = of_int a / of_int b"
    using quotient_of_denom_pos quotient_of_div by blast+
  have "0 < \<bar>q\<bar>" using assms by simp
  then have a: "0 < a" unfolding q using b by (simp add: zero_less_divide_iff)
  define A where "A = bitlen a"
  define B where "B = bitlen b"
  define k where "k = A - B"
  have A: "2 ^ nat (A - 1) \<le> a" "a < 2 ^ nat A" using bitlen_bounds [OF a] by (simp_all add: A_def)
  have B: "2 ^ nat (B - 1) \<le> b" "b < 2 ^ nat B" using bitlen_bounds [OF b] by (simp_all add: B_def)
  have Apos: "0 < A"
    using a bitlen_nonneg [of a] bitlen_eq_zero_iff [of a] unfolding A_def by linarith
  have Bpos: "0 < B"
    using b bitlen_nonneg [of b] bitlen_eq_zero_iff [of b] unfolding B_def by linarith
  have ra: "pow2 (A - 1) \<le> of_int a" "of_int a < pow2 A"
    using A Apos by (simp_all add: pow2_def)
  have rb: "pow2 (B - 1) \<le> of_int b" "of_int b < pow2 B"
    using B Bpos by (simp_all add: pow2_def)
  have bpos: "(0::rat) < of_int b" using b by simp
  have "of_int a < pow2 (k + 1) * pow2 (B - 1)"
    using ra(2) by (simp add: k_def flip: pow2_add)
  also have "\<dots> \<le> pow2 (k + 1) * of_int b"
    using rb(1) pow2_pos [of "k + 1"] by simp
  finally have up: "\<bar>q\<bar> < pow2 (k + 1)"
    unfolding q using bpos by (simp add: pos_divide_less_eq)
  have "pow2 (k - 1) * of_int b \<le> pow2 (k - 1) * pow2 B"
    using rb(2) pow2_pos [of "k - 1"] by simp
  also have "\<dots> = pow2 (A - 1)"
    by (simp add: k_def flip: pow2_add)
  also have "\<dots> \<le> of_int a" by (rule ra(1))
  finally have lo: "pow2 (k - 1) \<le> \<bar>q\<bar>"
    unfolding q using bpos by (simp add: pos_le_divide_eq)
  have "ilog2 q = (if pow2 k \<le> \<bar>q\<bar> then k else k - 1)"
    by (simp add: ilog2_def ab k_def A_def B_def)
  then show ?thesis using up lo pow2_mono [of k "k + 1"] by (auto)
qed


lemma round_even_floor: "round_even x = \<lfloor>x\<rfloor> \<or> round_even x = \<lfloor>x\<rfloor> + 1"
  by (simp add: round_even_def Let_def)

lemma round_even_bound:
  assumes "\<bar>x\<bar> < of_int N"
  shows "\<bar>round_even x\<bar> \<le> N"
proof -
  have "x < of_int N" "- of_int N < x" using assms by linarith+
  then have "\<lfloor>x\<rfloor> < N" "- N \<le> \<lfloor>x\<rfloor>"
    by (simp_all add: floor_less_iff le_floor_iff)
  then show ?thesis using round_even_floor [of x] by linarith
qed

text \<open>
  The result of the rounding is a multiple \<open>m * 2 ^ e\<close> of the unit in the last place
  with a significand of at most 24 bits, and no other multiple of that unit is closer.
\<close>

lemma f32_nearest:
  assumes "q \<noteq> 0"
  defines "e \<equiv> max (ilog2 q - 23) (- 149)"
  shows "\<exists>m. f32 q = of_int m * pow2 e \<and> \<bar>m\<bar> \<le> 2 ^ 24
           \<and> (\<forall>n. \<bar>f32 q - q\<bar> \<le> \<bar>of_int n * pow2 e - q\<bar>)"
proof -
  define x where "x = q / pow2 e"
  define m where "m = round_even x"
  have pe: "0 < pow2 e" by (rule pow2_pos)
  have f: "f32 q = of_int m * pow2 e"
    using assms(1) by (simp add: f32_def Let_def m_def x_def e_def)
  have qx: "q = x * pow2 e" using pe by (simp add: x_def)
  have "\<bar>q\<bar> < pow2 (ilog2 q + 1)" using ilog2_bounds [OF assms(1)] by simp
  also have "\<dots> \<le> pow2 (24 + e)" by (rule pow2_mono) (simp add: e_def)
  also have "\<dots> = 2 ^ 24 * pow2 e"
  proof -
    have "pow2 24 = 2 ^ 24" by (simp add: pow2_def)
    then show ?thesis by (simp only: pow2_add)
  qed
  finally have "\<bar>x\<bar> < 2 ^ 24"
    using pe by (simp add: x_def abs_divide pos_divide_less_eq abs_of_pos)
  then have "\<bar>x\<bar> < of_int (2 ^ 24)" by simp
  then have m24: "\<bar>m\<bar> \<le> 2 ^ 24" unfolding m_def by (rule round_even_bound)
  have scale: "\<bar>of_int k * pow2 e - q\<bar> = \<bar>of_int k - x\<bar> * pow2 e" for k
  proof -
    have "of_int k * pow2 e - q = (of_int k - x) * pow2 e"
      using qx by (simp add: left_diff_distrib)
    then show ?thesis
      using pe by (simp add: abs_mult)
  qed
  have near: "\<bar>f32 q - q\<bar> \<le> \<bar>of_int n * pow2 e - q\<bar>" for n
    unfolding f scale using round_even_nearest [of x n] pe by (simp add: m_def)
  show ?thesis using f m24 near by blast
qed

text \<open>An integer of at most 24 bits is a binary32 value: its conversion is exact.\<close>

lemma round_even_of_int: "round_even (of_int k) = k"
  by (simp add: round_even_def)

lemma pow2_less_cancel: "pow2 a < pow2 b \<Longrightarrow> a < b"
  using pow2_mono [of b a] by (cases "a < b") simp_all

lemma f32_of_int:
  assumes "\<bar>n\<bar> < 2 ^ 24"
  shows "f32 (of_int n) = of_int n"
proof (cases "n = 0")
  case True
  then show ?thesis by (simp add: f32_def)
next
  case False
  define q :: rat where "q = of_int n"
  define k where "k = ilog2 q"
  have q0: "q \<noteq> 0" using False by (simp add: q_def)
  have absq: "\<bar>q\<bar> = of_int \<bar>n\<bar>" by (simp add: q_def)
  have "1 \<le> \<bar>n\<bar>" using False by linarith
  then have ge1: "pow2 0 \<le> \<bar>q\<bar>" unfolding absq by (simp add: pow2_def)
  have "\<bar>q\<bar> < of_int (2 ^ 24)" unfolding absq using assms by (simp only: of_int_less_iff)
  then have lt24: "\<bar>q\<bar> < pow2 24" by (simp add: pow2_def)
  have "pow2 k \<le> \<bar>q\<bar>" "\<bar>q\<bar> < pow2 (k + 1)"
    using ilog2_bounds [OF q0] by (simp_all add: k_def)
  with ge1 lt24 have lt: "pow2 k < pow2 24" "pow2 0 < pow2 (k + 1)" by linarith+
  have "k < 24" "0 < k + 1"
    using lt [THEN pow2_less_cancel] by simp_all
  then have e: "max (k - 23) (- 149) = k - 23" and k: "0 \<le> 23 - k" by simp_all
  define s where "s = nat (23 - k)"
  have p: "pow2 (k - 23) = 1 / 2 ^ s"
    using k by (cases "k = 23") (simp_all add: pow2_def s_def)
  have "q / pow2 (k - 23) = of_int (n * 2 ^ s)"
    by (simp add: p q_def)
  then have "round_even (q / pow2 (k - 23)) = n * 2 ^ s"
    by (simp only: round_even_of_int)
  then have "f32 q = of_int (n * 2 ^ s) * pow2 (k - 23)"
    using q0 by (simp add: f32_def Let_def e flip: k_def)
  also have "\<dots> = q" by (simp add: p q_def)
  finally show ?thesis by (simp add: q_def)
qed

lemma f32_sample: "f32 (of_int (uint (raw :: u16))) = of_int (uint raw)"
proof (rule f32_of_int)
  have "uint raw < 2 ^ 16" using uint_lt2p [of raw] by simp
  moreover have "0 \<le> uint raw" by simp
  ultimately show "\<bar>uint raw\<bar> < 2 ^ 24" by simp
qed


lemma f32_nonneg:
  assumes "0 \<le> q"
  shows "0 \<le> f32 q"
proof (cases "q = 0")
  case True
  then show ?thesis by (simp add: f32_def)
next
  case False
  define e where "e = max (ilog2 q - 23) (- 149)"
  have "0 \<le> q / pow2 e" using assms pow2_pos [of e] by simp
  then have "0 \<le> \<lfloor>q / pow2 e\<rfloor>" by simp
  then have "0 \<le> round_even (q / pow2 e)"
    using round_even_floor [of "q / pow2 e"] by linarith
  then have "0 \<le> of_int (round_even (q / pow2 e)) * pow2 e"
    using pow2_pos [of e] by simp
  then show ?thesis using False by (simp add: f32_def Let_def e_def)
qed

lemma f32_le_double:
  assumes "0 \<le> q"
  shows "f32 q \<le> 2 * q"
proof (cases "q = 0")
  case True
  then show ?thesis by (simp add: f32_def)
next
  case False
  from f32_nearest [OF False] have "\<bar>f32 q - q\<bar> \<le> \<bar>of_int 0 * pow2 (max (ilog2 q - 23) (- 149)) - q\<bar>"
    by blast
  then show ?thesis using assms by simp
qed

section \<open>The voltage reading: C3\<close>

lemma displayVal_full: "displayVal 65535 = Inr 3300"
  by code_simp

lemma displayVal_zero: "displayVal 0 = Inr 0"
  by code_simp

lemma voltage_full: "voltage 65535 = f32 (33 / 10)"
  by code_simp

lemma digits_3300: "digits 3300 = [3, 3, 0, 0]"
  by (simp add: digits_def signed_divide_int_def signed_modulo_int_def)

lemma displayNumber_3300:
  "displayNumber 3300 True 0 b
     = Inr (show_frame [(digitPattern ! 3 AND NOT 0x80, 0x01), (digitPattern ! 3, 0x02),
                        (digitPattern ! 0, 0x04), (digitPattern ! 0, 0x08)] b)"
  unfolding displayNumber_def digits_3300
  by (rule displayNumber_from_frame) (simp_all add: segments_at_digit clear_dp_word')

text \<open>
  C3: the voltage scaling (the raw 16-bit sample times 3.3, divided by 65535, times 1000,
  truncated to an integer, each step in single precision) maps the raw value 65535 to the
  displayed integer 3300 and the raw value 0 to 0. With the second button held, the loop
  shows 3300 with the decimal point on slot 0.
\<close>

theorem voltage_scaling:
  "displayVal 65535 = Inr 3300
   \<and> displayVal 0 = Inr 0
   \<and> voltage 65535 = f32 (33 / 10)
   \<and> voltage 0 = 0
   \<and> main_iteration \<lparr>s1 = True, s3 = False, potentiometer = 65535\<rparr> (c, b)
       = Inr (c, show_frame [(digitPattern ! 3 AND NOT 0x80, 0x01), (digitPattern ! 3, 0x02),
                             (digitPattern ! 0, 0x04), (digitPattern ! 0, 0x08)] b)"
proof -
  have "voltage 0 = 0"
    by (simp add: voltage_def f32_def)
  moreover have "main_iteration \<lparr>s1 = True, s3 = False, potentiometer = 65535\<rparr> (c, b)
       = Inr (c, show_frame [(digitPattern ! 3 AND NOT 0x80, 0x01), (digitPattern ! 3, 0x02),
                             (digitPattern ! 0, 0x04), (digitPattern ! 0, 0x08)] b)"
    by (simp add: main_iteration_def displayVal_full displayNumber_3300)
  ultimately show ?thesis
    using displayVal_full displayVal_zero voltage_full by blast
qed

section \<open>The main loop commits no fault\<close>

text \<open>
  The display value of the analog branch is defined and non-negative for every sample
  (the upper bound below is a coarse one: each rounding at most doubles a value), and the
  display value of the time branch for every state of the counters in their ranges, so
  \<open>displayNumber\<close> is only called with the numbers it is written for.
\<close>

lemma displayVal_total:
  "\<exists>v. displayVal raw = Inr v \<and> 0 \<le> v \<and> v \<le> 26400"
proof -
  define r :: rat where "r = of_int (uint raw)"
  define c :: rat where "c = f32 (33 / 10)"
  define p where "p = f32 (r * c)"
  define w where "w = f32 (p / 65535)"
  define t where "t = f32 (w * 1000)"
  have c: "c = 13841203 / 2 ^ 22" unfolding c_def by (rule f32_examples)
  have k: "f32 65535 = 65535" "f32 1000 = 1000"
    using f32_of_int [of 65535] f32_of_int [of 1000] by simp_all
  have "uint raw < 2 ^ 16" using uint_lt2p [of raw] by simp
  then have "uint raw \<le> 65535" by simp
  then have "(of_int (uint raw) :: rat) \<le> of_int 65535" by (simp only: of_int_le_iff)
  moreover have "(of_int 0 :: rat) \<le> of_int (uint raw)" by (simp only: of_int_le_iff uint_ge_0)
  ultimately have r: "0 \<le> r" "r \<le> 65535" by (simp_all only: r_def of_int_0 of_int_numeral)
  have rc: "0 \<le> r * c" "r * c \<le> 65535 * (33 / 10)"
    using r by (simp_all add: c)
  have p: "0 \<le> p" "p \<le> 2 * (65535 * (33 / 10))"
    using f32_nonneg [OF rc(1)] f32_le_double [OF rc(1)] rc(2) by (simp_all add: p_def)
  have pq: "0 \<le> p / 65535" "p / 65535 \<le> 2 * (33 / 10)"
    using p by simp_all
  have w: "0 \<le> w" "w \<le> 4 * (33 / 10)"
    using f32_nonneg [OF pq(1)] f32_le_double [OF pq(1)] pq(2) by (simp_all add: w_def)
  have wk: "0 \<le> w * 1000" "w * 1000 \<le> 13200"
    using w by simp_all
  have t: "0 \<le> t" "t \<le> 26400"
    using f32_nonneg [OF wk(1)] f32_le_double [OF wk(1)] wk(2) by (simp_all add: t_def)
  have fl: "0 \<le> \<lfloor>t\<rfloor>" "\<lfloor>t\<rfloor> \<le> 26400"
    using t by (simp_all add: floor_le_iff) 
  have "displayVal raw = float_to_int t"
    by (simp only: displayVal_def voltage_def f32_sample k t_def w_def p_def r_def c_def)
  also have "\<dots> = Inr \<lfloor>t\<rfloor>"
    using t(1) fl by (simp add: float_to_int_def INT_MIN_def INT_MAX_def)
  finally show ?thesis using fl by simp
qed

lemma timeValue_in_range:
  assumes "in_range c"
  shows "\<exists>v. timeValue c = Inr v \<and> 0 \<le> v \<and> v \<le> 9959"
  using assms by (simp add: in_range_def timeValue_def checked_def INT_MIN_def INT_MAX_def)

text \<open>
  One pass of the main loop commits no fault, whatever the buttons and the sample are,
  and leaves the counters in their ranges.
\<close>

lemma main_iteration_safe:
  assumes "in_range c"
  shows "\<exists>c' b'. main_iteration inp (c, b) = Inr (c', b') \<and> in_range c'"
proof -
  define c1 where "c1 = (if \<not> s1 inp then reset c else c)"
  define b1 where "b1 = (if \<not> s1 inp then sleep_for 200 b else b)"
  have c1: "in_range c1" using assms by (simp add: c1_def reset_def in_range_def)
  show ?thesis
  proof (cases "s3 inp")
    case True
    from timeValue_in_range [OF c1] obtain v where v: "timeValue c1 = Inr v" "0 \<le> v" by blast
    from displayNumber_nonneg [OF v(2), of True 1 b1] obtain b' where
      "displayNumber v True 1 b1 = Inr b'" by blast
    with v True c1 show ?thesis
      by (auto simp add: main_iteration_def c1_def b1_def)
  next
    case False
    from displayVal_total [of "potentiometer inp"] obtain v
      where v: "displayVal (potentiometer inp) = Inr v" "0 \<le> v" by blast
    from displayNumber_nonneg [OF v(2), of True 0 b1] obtain b' where
      "displayNumber v True 0 b1 = Inr b'" by blast
    with v False c1 show ?thesis
      by (auto simp add: main_iteration_def c1_def b1_def)
  qed
qed

end
